theory Spec2Isabelle
  imports Main "HOL-Library.AList"
begin

section \<open>The appcast updater \<^verbatim>\<open>dist/macos/update_appcast_tip.py\<close>\<close>

text \<open>
  The script is one module body, run top to bottom: it reads two environment variables,
  parses \<^verbatim>\<open>sign_update.txt\<close> into a dictionary, parses \<^verbatim>\<open>appcast.xml\<close>, appends one
  \<^verbatim>\<open>item\<close> element to the \<^verbatim>\<open>channel\<close> child of the root and writes the tree to
  \<^verbatim>\<open>appcast_new.xml\<close>. Every Python exception is a value of type \<open>error\<close>; the
  files and the environment are a record that the run takes and returns.
\<close>

subsection \<open>Python strings\<close>

text \<open>
  A Python \<^verbatim>\<open>str\<close> is a sequence of code points. The model is \<open>string\<close>, so a character is
  a code point below 256. \<^verbatim>\<open>str.isspace\<close> on that range: tab to carriage return, the four
  separators 0x1C to 0x1F, the space, NEL (0x85) and the no-break space (0xA0).
\<close>

definition isspace :: "char \<Rightarrow> bool" where
  "isspace c = (of_char c \<in> {9, 10, 11, 12, 13, 28, 29, 30, 31, 32, 133, 160 :: nat})"

text \<open>\<^verbatim>\<open>s.strip()\<close>: leading and trailing whitespace removed.\<close>

definition strip :: "string \<Rightarrow> string" where
  "strip s = rev (dropWhile isspace (rev (dropWhile isspace s)))"

text \<open>
  \<^verbatim>\<open>s.split(sep)\<close> for a separator of one character: every occurrence of the separator
  ends a field, so the result has one field more than there are separators, and empty
  fields are kept (\<^verbatim>\<open>"".split(" ") == [""]\<close>, \<^verbatim>\<open>"a  b".split(" ") == ["a", "", "b"]\<close>).
  The result of the recursive call is never empty, so the last case is never taken.
\<close>

fun str_split :: "char \<Rightarrow> string \<Rightarrow> string list" where
  "str_split sep [] = [[]]"
| "str_split sep (c # cs) =
     (if c = sep then [] # str_split sep cs
      else (case str_split sep cs of
              field # fields \<Rightarrow> (c # field) # fields
            | [] \<Rightarrow> [[c]]))"

text \<open>
  \<^verbatim>\<open>s.split(sep, 1)\<close>: at most one split, at the first separator. The result has one
  element when the separator does not occur and two when it does.
\<close>

definition str_split1 :: "char \<Rightarrow> string \<Rightarrow> string list" where
  "str_split1 sep s =
     (case dropWhile (\<lambda>c. c \<noteq> sep) s of
        [] \<Rightarrow> [s]
      | _ # rest \<Rightarrow> [takeWhile (\<lambda>c. c \<noteq> sep) s, rest])"

text \<open>\<^verbatim>\<open>s[1:-1]\<close>: the slice without the first and the last character; empty when \<open>s\<close>
  has fewer than two characters.\<close>

definition slice_1_m1 :: "string \<Rightarrow> string" where
  "slice_1_m1 s = butlast (drop 1 s)"

subsection \<open>Exceptions\<close>

text \<open>
  The exceptions the module body can raise, by the statement that raises them:
  \<^item> \<open>KeyError v\<close>: \<^verbatim>\<open>os.environ[v]\<close> with \<open>v\<close> unset (lines 23, 24);
  \<^item> \<open>FileNotFoundError f\<close>: \<^verbatim>\<open>open(f)\<close> or \<^verbatim>\<open>ET.parse(f)\<close> on a missing file (lines 27, 43);
  \<^item> \<open>ValueError\<close>: \<^verbatim>\<open>key, value = pair.split("=", 1)\<close> when the list has one element,
    that is, when the token has no \<^verbatim>\<open>=\<close> (line 32); also the unpacking inside
    \<^verbatim>\<open>et.write\<close> described below (line 75);
  \<^item> \<open>IndexError\<close>: \<^verbatim>\<open>value[0]\<close> on the empty string (line 34);
  \<^item> \<open>ParseError\<close>: \<^verbatim>\<open>ET.parse\<close> on a file that is not well-formed XML (line 43);
  \<^item> \<open>TypeError\<close>: \<^verbatim>\<open>ET.SubElement(None, "item")\<close>, when \<^verbatim>\<open>et.find("channel")\<close> returned
    \<^verbatim>\<open>None\<close> (line 47).
\<close>

datatype error =
    KeyError string
  | FileNotFoundError string
  | ValueError
  | IndexError
  | ParseError
  | TypeError

subsection \<open>Parsing \<^verbatim>\<open>sign_update.txt\<close> (lines 27 to 36)\<close>

text \<open>
  A Python \<^verbatim>\<open>dict\<close> keeps its keys in insertion order, and assigning to a key that is
  present replaces the value in place: this is \<^const>\<open>AList.update\<close> on an association
  list.

  Lines 32 to 35, for one token \<open>pair\<close>: the key and the value that line 36 stores, or
  the exception raised. The unpacking \<^verbatim>\<open>key, value = ...\<close> raises unless the list has
  exactly two elements.
\<close>

definition dquote :: char where
  "dquote = CHR 0x22"

definition parse_pair :: "string \<Rightarrow> error + (string \<times> string)" where
  "parse_pair pair =
     (case str_split1 (CHR ''='') pair of
        [key, value] \<Rightarrow>
          (let value = strip value in
           (case value of
              [] \<Rightarrow> Inl IndexError
            | c # _ \<Rightarrow> Inr (key, if c = dquote then slice_1_m1 value else value)))
      | _ \<Rightarrow> Inl ValueError)"

text \<open>The loop over the tokens, in order, with \<^verbatim>\<open>attrs[key] = value\<close> (line 36); the first
  exception ends it.\<close>

fun parse_loop ::
  "string list \<Rightarrow> (string \<times> string) list \<Rightarrow> error + (string \<times> string) list" where
  "parse_loop [] attrs = Inr attrs"
| "parse_loop (pair # pairs) attrs =
     (case parse_pair pair of
        Inl e \<Rightarrow> Inl e
      | Inr (key, value) \<Rightarrow> parse_loop pairs (AList.update key value attrs))"

text \<open>\<^verbatim>\<open>f.read().split(" ")\<close> and the loop, from the empty dictionary.\<close>

definition parse_attrs :: "string \<Rightarrow> error + (string \<times> string) list" where
  "parse_attrs content = parse_loop (str_split (CHR '' '') content) []"

subsection \<open>Element trees\<close>

text \<open>
  An \<^verbatim>\<open>xml.etree.ElementTree.Element\<close>: tag, attribute dictionary, text, tail and the
  list of children. \<^verbatim>\<open>text\<close> and \<^verbatim>\<open>tail\<close> are \<^verbatim>\<open>None\<close> or a string.
\<close>

datatype element =
  Element (tag: string) (attrib: "(string \<times> string) list") (etext: "string option")
    (tail: "string option") (children: "element list")

text \<open>
  \<^verbatim>\<open>ET.SubElement(parent, tag)\<close> makes an element with no attributes, no text and no
  children, appends it to the children of the parent and returns it. The script assigns
  to the element it got back, with \<^verbatim>\<open>elem.text = s\<close> and \<^verbatim>\<open>elem.set(key, value)\<close>; nothing
  reads the parent in between, so the model makes the child, applies the assignments and
  then appends it.
\<close>

definition new_element :: "string \<Rightarrow> element" where
  "new_element t = Element t [] None None []"

definition set_text :: "string \<Rightarrow> element \<Rightarrow> element" where
  "set_text s e = Element (tag e) (attrib e) (Some s) (tail e) (children e)"

definition set_attr :: "string \<Rightarrow> string \<Rightarrow> element \<Rightarrow> element" where
  "set_attr key value e =
     Element (tag e) (AList.update key value (attrib e)) (etext e) (tail e) (children e)"

definition append_elem :: "element \<Rightarrow> element \<Rightarrow> element" where
  "append_elem parent e =
     Element (tag parent) (attrib parent) (etext parent) (tail parent) (children parent @ [e])"

text \<open>\<^verbatim>\<open>root.find(t)\<close> for a path that is a plain tag: the first child of the root with
  that tag, here as its position among the children, or \<^verbatim>\<open>None\<close>.\<close>

fun find_idx :: "string \<Rightarrow> element list \<Rightarrow> nat option" where
  "find_idx t [] = None"
| "find_idx t (e # es) = (if tag e = t then Some 0 else map_option Suc (find_idx t es))"

definition find_tag :: "element \<Rightarrow> string \<Rightarrow> nat option" where
  "find_tag root t = find_idx t (children root)"

subsection \<open>The new item (lines 47 to 72)\<close>

definition NL :: char where
  "NL = CHR 0x0A"

definition description :: "string \<Rightarrow> string" where
  \<open>description commit =
     [NL] @ ''<p>Automated build from commit <code>'' @ commit @ ''</code>.</p>'' @ [NL] @
     ''<p>'' @ [NL] @
     ''These are automatic per-commit builds generated from the main Git branch.'' @ [NL] @
     ''We do not generate any release notes for these builds. You can view the full'' @ [NL] @
     ''commit history'' @ [NL] @
     ''<a href="https://github.com/mitchellh/ghostty">on GitHub</a> for all changes.'' @ [NL] @
     ''</p>'' @ [NL]\<close>

definition enclosure_url :: "string \<Rightarrow> string" where
  "enclosure_url build =
     ''https://tip.files.ghostty.dev/'' @ build @ ''/ghostty-macos-universal.zip''"

text \<open>Lines 68 to 72: the enclosure, with \<^verbatim>\<open>url\<close> and \<^verbatim>\<open>type\<close> set first and then
  \<^verbatim>\<open>for key, value in attrs.items(): elem.set(key, value)\<close>, in the order of the dictionary.\<close>

fun set_all :: "(string \<times> string) list \<Rightarrow> element \<Rightarrow> element" where
  "set_all [] elem = elem"
| "set_all ((key, value) # rest) elem = set_all rest (set_attr key value elem)"

definition enclosure :: "string \<Rightarrow> (string \<times> string) list \<Rightarrow> element" where
  "enclosure build attrs =
     set_all attrs
       (set_attr ''type'' ''application/octet-stream''
         (set_attr ''url'' (enclosure_url build) (new_element ''enclosure'')))"

text \<open>Lines 47 to 72: the item and its seven children, in the order the script appends
  them. \<open>now\<close> is the text of \<^verbatim>\<open>now.strftime("%a, %d %b %Y %H:%M:%S %z")\<close>.\<close>

definition new_item :: "string \<Rightarrow> string \<Rightarrow> string \<Rightarrow> (string \<times> string) list \<Rightarrow> element" where
  "new_item build commit now attrs =
     (let item = new_element ''item'';
          item = append_elem item (set_text (''Build '' @ build) (new_element ''title''));
          item = append_elem item (set_text now (new_element ''pubDate''));
          item = append_elem item (set_text build (new_element ''sparkle:version''));
          item = append_elem item (set_text commit (new_element ''sparkle:shortVersionString''));
          item = append_elem item (set_text ''12.0.0'' (new_element ''sparkle:minimumSystemVersion''));
          item = append_elem item (set_text (description commit) (new_element ''description''))
      in append_elem item (enclosure build attrs))"

text \<open>
  Line 47 appends the item to \<^verbatim>\<open>channel\<close>, the child of the root that \<^const>\<open>find_tag\<close>
  returned, here the child at position \<open>i\<close>. The script holds a reference to that child
  and the tree changes with it; the model rebuilds the root with the child replaced.
\<close>

definition append_item :: "element \<Rightarrow> nat \<Rightarrow> element \<Rightarrow> element" where
  "append_item root i item =
     Element (tag root) (attrib root) (etext root) (tail root)
       ((children root)[i := append_elem (children root ! i) item])"

subsection \<open>Writing the tree (line 75)\<close>

text \<open>
  \<^verbatim>\<open>et.write("appcast_new.xml", xml_declaration=True, encoding="utf-8")\<close> is a call into
  the standard library. \<^verbatim>\<open>ElementTree.write\<close> first opens the file for writing, which
  creates or empties it, and writes the XML declaration. Only then does it collect the
  names of the tree (\<^verbatim>\<open>_namespaces\<close>): for every tag and every attribute name that starts
  with \<^verbatim>\<open>{\<close> it unpacks \<^verbatim>\<open>uri, tag = qname[1:].rsplit("}", 1)\<close>, which raises
  \<open>ValueError\<close> when no \<^verbatim>\<open>}\<close> follows. The exception leaves through the \<^verbatim>\<open>with\<close> block
  that closes the file, so the file stays behind with the declaration alone. Names that
  the parser produced never fail this way; the attribute names taken from
  \<^verbatim>\<open>sign_update.txt\<close> can. When no name fails, the whole tree is serialised.

  Failures of the file system during the write (permissions, a full disk) are not part
  of the model.
\<close>

definition qname_ok :: "string \<Rightarrow> bool" where
  "qname_ok qname = (take 1 qname = ''{'' \<longrightarrow> CHR ''}'' \<in> set (drop 1 qname))"

fun serializable :: "element \<Rightarrow> bool" where
  "serializable (Element t a x y cs) =
     (qname_ok t \<and> list_all qname_ok (map fst a) \<and> list_all serializable cs)"

text \<open>What the output file holds: the declaration alone, or the serialised tree, given by
  the tree.\<close>

datatype outfile = DeclarationOnly | Written element

subsection \<open>The run\<close>

text \<open>
  What the script reads and writes. The signature file is given by the text that
  \<^verbatim>\<open>f.read()\<close> returns, \<open>None\<close> when the file cannot be opened. A file that holds XML is
  given by what \<^verbatim>\<open>ET.parse\<close> makes of it: not well-formed, or the tree of its root
  element. The output file is \<open>None\<close> while it does not exist. \<open>now_text\<close> is the time of
  the run as line 51 formats it.
\<close>

datatype xml = NotWellFormed | Document element

record world =
  environ :: "string \<rightharpoonup> string"
  now_text :: string
  sign_update_txt :: "string option"
  appcast_xml :: "xml option"
  appcast_new_xml :: "outfile option"

definition et_write :: "element \<Rightarrow> world \<Rightarrow> (error + unit) \<times> world" where
  "et_write root w =
     (if serializable root then (Inr (), w\<lparr>appcast_new_xml := Some (Written root)\<rparr>)
      else (Inl ValueError, w\<lparr>appcast_new_xml := Some DeclarationOnly\<rparr>))"

text \<open>The module body, statement by statement. An exception ends the run with the world
  as it is at that point.\<close>

definition run :: "world \<Rightarrow> (error + unit) \<times> world" where
  "run w =
     (case environ w ''GHOSTTY_BUILD'' of
        None \<Rightarrow> (Inl (KeyError ''GHOSTTY_BUILD''), w)
      | Some build \<Rightarrow>
     (case environ w ''GHOSTTY_COMMIT'' of
        None \<Rightarrow> (Inl (KeyError ''GHOSTTY_COMMIT''), w)
      | Some commit \<Rightarrow>
     (case sign_update_txt w of
        None \<Rightarrow> (Inl (FileNotFoundError ''sign_update.txt''), w)
      | Some content \<Rightarrow>
     (case parse_attrs content of
        Inl e \<Rightarrow> (Inl e, w)
      | Inr attrs \<Rightarrow>
     (case appcast_xml w of
        None \<Rightarrow> (Inl (FileNotFoundError ''appcast.xml''), w)
      | Some NotWellFormed \<Rightarrow> (Inl ParseError, w)
      | Some (Document root) \<Rightarrow>
     (case find_tag root ''channel'' of
        None \<Rightarrow> (Inl TypeError, w)
      | Some i \<Rightarrow>
          et_write (append_item root i (new_item build commit (now_text w) attrs)) w))))))"

subsection \<open>Notions used to state the properties\<close>

text \<open>The two parts of a token at its first \<^verbatim>\<open>=\<close>: what is before it and what is after
  it. They are the key and the untrimmed value of a token that has a \<^verbatim>\<open>=\<close>.\<close>

definition token_key :: "string \<Rightarrow> string" where
  "token_key t = takeWhile (\<lambda>c. c \<noteq> CHR ''='') t"

definition token_value :: "string \<Rightarrow> string" where
  "token_value t = drop 1 (dropWhile (\<lambda>c. c \<noteq> CHR ''='') t)"

text \<open>An element with tag \<open>t\<close> occurs somewhere in the tree, the root included.\<close>

fun contains_tag :: "string \<Rightarrow> element \<Rightarrow> bool" where
  "contains_tag t (Element t' a x y cs) = (t' = t \<or> (\<exists>c\<in>set cs. contains_tag t c))"

text \<open>The element that \<^verbatim>\<open>find("channel")\<close> returns, and the \<^verbatim>\<open>item\<close> children of an
  element.\<close>

definition channel_of :: "element \<Rightarrow> element option" where
  "channel_of root = map_option (\<lambda>i. children root ! i) (find_tag root ''channel'')"


text \<open>A feed with one item and a world with both variables set, used to run the script
  on concrete inputs.\<close>

definition example_channel :: element where
  "example_channel =
     Element ''channel'' [] None None
       [Element ''title'' [] (Some ''Ghostty'') None [],
        Element ''item'' [] None None [Element ''title'' [] (Some ''Build 1233'') None []]]"

definition example_feed :: element where
  "example_feed = Element ''rss'' [(''version'', ''2.0'')] None None [example_channel]"

definition feed_without_channel :: element where
  "feed_without_channel =
     Element ''rss'' [] None None [Element ''title'' [] (Some ''Ghostty'') None []]"

definition example_world :: "string \<Rightarrow> xml option \<Rightarrow> world" where
  "example_world content feed =
     \<lparr>environ = [''GHOSTTY_BUILD'' \<mapsto> ''1234'', ''GHOSTTY_COMMIT'' \<mapsto> ''abcd123''],
      now_text = ''Mon, 02 Jan 2006 15:04:05 +0000'',
      sign_update_txt = Some content,
      appcast_xml = feed,
      appcast_new_xml = None\<rparr>"

section \<open>Auxiliary facts\<close>

subsection \<open>Strings and tokens\<close>

lemma str_split_not_Nil: "str_split sep s \<noteq> []"
  by (induction s) (auto split: list.splits)

lemma length_str_split: "length (str_split sep s) = Suc (count_list s sep)"
  by (induction s) (auto split: list.splits simp: str_split_not_Nil)

lemma str_split1_no_sep: "sep \<notin> set s \<Longrightarrow> str_split1 sep s = [s]"
proof -
  assume "sep \<notin> set s"
  then have "dropWhile (\<lambda>c. c \<noteq> sep) s = []"
    by (auto simp: dropWhile_eq_Nil_conv)
  then show ?thesis unfolding str_split1_def by (simp only: list.case)
qed

lemma str_split1_sep: "sep \<notin> set k \<Longrightarrow> str_split1 sep (k @ sep # v) = [k, v]"
proof -
  assume a: "sep \<notin> set k"
  then have "dropWhile (\<lambda>c. c \<noteq> sep) (k @ sep # v) = sep # v"
    by (subst dropWhile_append2) auto
  moreover from a have "takeWhile (\<lambda>c. c \<noteq> sep) (k @ sep # v) = k"
    by (subst takeWhile_append2) auto
  ultimately show ?thesis unfolding str_split1_def by (simp only: list.case)
qed

lemma token_split:
  "CHR ''='' \<in> set t \<Longrightarrow> t = token_key t @ CHR ''='' # token_value t \<and> CHR ''='' \<notin> set (token_key t)"
proof -
  assume a: "CHR ''='' \<in> set t"
  let ?d = "dropWhile (\<lambda>c. c \<noteq> CHR ''='') t"
  from a have ne: "?d \<noteq> []" by (auto simp: dropWhile_eq_Nil_conv)
  then have "\<not> (hd ?d \<noteq> CHR ''='')" by (rule hd_dropWhile)
  with ne have "?d = CHR ''='' # drop 1 ?d" by (cases ?d) auto
  then have "t = token_key t @ CHR ''='' # token_value t"
    unfolding token_key_def token_value_def
    by (metis takeWhile_dropWhile_id)
  moreover have "CHR ''='' \<notin> set (token_key t)"
    unfolding token_key_def by (auto dest: set_takeWhileD)
  ultimately show ?thesis by simp
qed

lemma strip_decomp:
  "\<exists>a b. s = a @ strip s @ b \<and> list_all isspace a \<and> list_all isspace b"
proof -
  let ?d = "dropWhile isspace s"
  have 1: "s = takeWhile isspace s @ ?d" by simp
  have "strip s @ rev (takeWhile isspace (rev ?d)) =
      rev (takeWhile isspace (rev ?d) @ dropWhile isspace (rev ?d))"
    by (simp only: strip_def rev_append)
  also have "\<dots> = rev (rev ?d)" by (simp only: takeWhile_dropWhile_id)
  finally have 2: "?d = strip s @ rev (takeWhile isspace (rev ?d))" by simp
  have 3: "list_all isspace (takeWhile isspace s)"
    by (auto simp: list_all_iff dest: set_takeWhileD)
  have 4: "list_all isspace (rev (takeWhile isspace (rev ?d)))"
    by (auto simp: list_all_iff dest: set_takeWhileD)
  from 1 2 have "s = takeWhile isspace s @ strip s @ rev (takeWhile isspace (rev ?d))"
    by metis
  with 3 4 show ?thesis by blast
qed

lemma strip_ends:
  assumes "strip s \<noteq> []"
  shows "\<not> isspace (hd (strip s)) \<and> \<not> isspace (last (strip s))"
proof -
  let ?d = "dropWhile isspace s"
  let ?e = "dropWhile isspace (rev ?d)"
  from assms have e: "?e \<noteq> []" by (simp add: strip_def)
  then have l: "\<not> isspace (hd ?e)" by (rule hd_dropWhile)
  from e have "last (strip s) = hd ?e" by (simp add: strip_def last_rev)
  with l have A: "\<not> isspace (last (strip s))" by simp
  have d: "?d \<noteq> []"
  proof
    assume "?d = []"
    then have "?e = []" by (simp only: rev.simps dropWhile.simps)
    with e show False by blast
  qed
  then have h: "\<not> isspace (hd ?d)" by (rule hd_dropWhile)
  have "strip s @ rev (takeWhile isspace (rev ?d)) = rev (takeWhile isspace (rev ?d) @ ?e)"
    by (simp only: strip_def rev_append)
  also have "\<dots> = rev (rev ?d)" by (simp only: takeWhile_dropWhile_id)
  finally have "?d = strip s @ rev (takeWhile isspace (rev ?d))" by simp
  with assms have "hd ?d = hd (strip s)" by (metis hd_append2)
  with h have "\<not> isspace (hd (strip s))" by simp
  with A show ?thesis by simp
qed

lemma parse_pair_no_eq: "CHR ''='' \<notin> set t \<Longrightarrow> parse_pair t = Inl ValueError"
  by (simp add: parse_pair_def str_split1_no_sep)

lemma parse_pair_eq:
  "CHR ''='' \<notin> set k \<Longrightarrow>
   parse_pair (k @ CHR ''='' # v) =
     (if strip v = [] then Inl IndexError
      else Inr (k, if hd (strip v) = dquote then slice_1_m1 (strip v) else strip v))"
  by (simp add: parse_pair_def str_split1_sep Let_def split: list.splits)

lemma parse_pair_token:
  "parse_pair t =
     (if CHR ''='' \<notin> set t then Inl ValueError
      else if strip (token_value t) = [] then Inl IndexError
      else Inr (token_key t,
             if hd (strip (token_value t)) = dquote then slice_1_m1 (strip (token_value t))
             else strip (token_value t)))"
proof (cases "CHR ''='' \<in> set t")
  case True
  then have "t = token_key t @ CHR ''='' # token_value t" "CHR ''='' \<notin> set (token_key t)"
    using token_split by auto
  then have "parse_pair t = parse_pair (token_key t @ CHR ''='' # token_value t)" by simp
  also have "\<dots> = (if strip (token_value t) = [] then Inl IndexError
      else Inr (token_key t,
             if hd (strip (token_value t)) = dquote then slice_1_m1 (strip (token_value t))
             else strip (token_value t)))"
    using \<open>CHR ''='' \<notin> set (token_key t)\<close> by (rule parse_pair_eq)
  finally show ?thesis using True by simp
next
  case False
  then show ?thesis by (simp add: parse_pair_no_eq)
qed

lemma slice_quoted: "slice_1_m1 (c # mid @ [d]) = mid"
  by (simp add: slice_1_m1_def butlast_append)

lemma slice_single: "slice_1_m1 [c] = []"
  by (simp add: slice_1_m1_def)

subsection \<open>The parsing loop, dictionaries and elements\<close>

lemma parse_loop_append:
  "parse_loop (ts @ us) attrs =
     (case parse_loop ts attrs of Inl e \<Rightarrow> Inl e | Inr a \<Rightarrow> parse_loop us a)"
  by (induction ts arbitrary: attrs) (auto split: sum.splits)

lemma parse_loop_all_ok:
  "parse_loop ts attrs = Inr r \<Longrightarrow> t \<in> set ts \<Longrightarrow> \<exists>k v. parse_pair t = Inr (k, v)"
  by (induction ts arbitrary: attrs) (auto split: sum.splits)

lemma parse_loop_some_fail:
  assumes "t \<in> set ts" "parse_pair t = Inl e"
  shows "\<exists>e'. parse_loop ts attrs = Inl e'"
proof (cases "parse_loop ts attrs")
  case (Inl e')
  then show ?thesis by blast
next
  case (Inr r)
  from Inr assms(1) have "\<exists>k v. parse_pair t = Inr (k, v)" by (rule parse_loop_all_ok)
  with assms(2) show ?thesis by simp
qed

lemma parse_loop_first_fail:
  "\<forall>u\<in>set ts1. parse_pair u = Inl e \<or> (\<exists>kv. parse_pair u = Inr kv) \<Longrightarrow>
   parse_pair t = Inl e \<Longrightarrow> parse_loop (ts1 @ t # ts2) attrs = Inl e"
  by (induction ts1 arbitrary: attrs) (auto split: sum.splits)

lemma parse_loop_distinct:
  "parse_loop ts attrs = Inr r \<Longrightarrow> distinct (map fst attrs) \<Longrightarrow> distinct (map fst r)"
  by (induction ts arbitrary: attrs) (auto split: sum.splits simp: distinct_update)

lemma parse_loop_keys_mono:
  "parse_loop ts attrs = Inr r \<Longrightarrow> fst ` set attrs \<subseteq> fst ` set r"
proof (induction ts arbitrary: attrs)
  case Nil
  then show ?case by simp
next
  case (Cons t ts)
  then obtain k v where kv: "parse_pair t = Inr (k, v)"
    and rest: "parse_loop ts (AList.update k v attrs) = Inr r"
    by (auto split: sum.splits)
  from Cons.IH [OF rest] have "fst ` set (AList.update k v attrs) \<subseteq> fst ` set r" .
  then show ?case by (auto simp: dom_update)
qed

lemma length_update:
  "length (AList.update k v al) = (if k \<in> fst ` set al then length al else Suc (length al))"
  by (induction al) auto

lemma update_fresh: "k \<notin> fst ` set al \<Longrightarrow> AList.update k v al = al @ [(k, v)]"
  by (induction al) auto

lemma parse_loop_length_le:
  "parse_loop ts attrs = Inr r \<Longrightarrow> length r \<le> length attrs + length ts"
proof (induction ts arbitrary: attrs)
  case Nil
  then show ?case by simp
next
  case (Cons t ts)
  then obtain k v where kv: "parse_pair t = Inr (k, v)"
    and rest: "parse_loop ts (AList.update k v attrs) = Inr r"
    by (auto split: sum.splits)
  from Cons.IH [OF rest] have "length r \<le> length (AList.update k v attrs) + length ts" .
  moreover have "length (AList.update k v attrs) \<le> Suc (length attrs)"
    by (simp add: length_update)
  ultimately show ?case by simp
qed

lemma parse_loop_other_key:
  "parse_loop ts attrs = Inr r \<Longrightarrow> \<forall>t\<in>set ts. \<forall>v. parse_pair t \<noteq> Inr (k, v) \<Longrightarrow>
   map_of r k = map_of attrs k"
proof (induction ts arbitrary: attrs)
  case Nil
  then show ?case by simp
next
  case (Cons t ts)
  then obtain k' v' where kv: "parse_pair t = Inr (k', v')"
    and rest: "parse_loop ts (AList.update k' v' attrs) = Inr r"
    by (auto split: sum.splits)
  from Cons.prems(2) kv have ne: "k' \<noteq> k" by auto
  from Cons.prems(2) have "\<forall>t\<in>set ts. \<forall>v. parse_pair t \<noteq> Inr (k, v)" by simp
  with rest have "map_of r k = map_of (AList.update k' v' attrs) k" by (rule Cons.IH)
  with ne show ?case by (simp add: update_conv')
qed

lemma parse_loop_last_wins:
  assumes "parse_loop (ts1 @ t # ts2) attrs = Inr r" "parse_pair t = Inr (k, v)"
    "\<forall>u\<in>set ts2. \<forall>v'. parse_pair u \<noteq> Inr (k, v')"
  shows "map_of r k = Some v"
proof -
  from assms(1) obtain a where a: "parse_loop ts1 attrs = Inr a"
    and "parse_loop (t # ts2) a = Inr r"
    by (auto simp: parse_loop_append split: sum.splits)
  with assms(2) have "parse_loop ts2 (AList.update k v a) = Inr r" by simp
  then have "map_of r k = map_of (AList.update k v a) k"
    using assms(3) by (rule parse_loop_other_key)
  then show ?thesis by (simp add: update_conv')
qed

lemma parse_loop_fresh_keys:
  "list_all2 (\<lambda>t kv. parse_pair t = Inr kv) ts kvs \<Longrightarrow>
   distinct (map fst attrs @ map fst kvs) \<Longrightarrow> parse_loop ts attrs = Inr (attrs @ kvs)"
proof (induction ts kvs arbitrary: attrs rule: list_all2_induct)
  case Nil
  then show ?case by simp
next
  case (Cons t ts kv kvs)
  obtain k v where [simp]: "kv = (k, v)" by (cases kv)
  from Cons.prems have fresh: "k \<notin> fst ` set attrs" by auto
  from Cons.prems have "distinct (map fst (attrs @ [(k, v)]) @ map fst kvs)" by auto
  then have "parse_loop ts (attrs @ [(k, v)]) = Inr ((attrs @ [(k, v)]) @ kvs)" by (rule Cons.IH)
  with Cons.hyps(1) fresh show ?case by (simp add: update_fresh)
qed

lemma parse_loop_dup_shorter:
  assumes "parse_loop (ts1 @ t # ts2 @ t' # ts3) [] = Inr r"
    "parse_pair t = Inr (k, v)" "parse_pair t' = Inr (k, v')"
  shows "length r < length (ts1 @ t # ts2 @ t' # ts3)"
proof -
  from assms(1) have "parse_loop ((ts1 @ t # ts2) @ t' # ts3) [] = Inr r" by simp
  then obtain a where a: "parse_loop (ts1 @ t # ts2) [] = Inr a"
    and b: "parse_loop (t' # ts3) a = Inr r"
    unfolding parse_loop_append [of "ts1 @ t # ts2"] by (auto split: sum.splits)
  from a obtain a1 where "parse_loop ts1 [] = Inr a1" and "parse_loop (t # ts2) a1 = Inr a"
    by (auto simp: parse_loop_append split: sum.splits)
  with assms(2) have "parse_loop ts2 (AList.update k v a1) = Inr a" by simp
  then have "fst ` set (AList.update k v a1) \<subseteq> fst ` set a" by (rule parse_loop_keys_mono)
  then have k: "k \<in> fst ` set a" by (auto simp: dom_update)
  from a have la: "length a \<le> length (ts1 @ t # ts2)"
    using parse_loop_length_le by fastforce
  from b assms(3) have "parse_loop ts3 (AList.update k v' a) = Inr r" by simp
  then have "length r \<le> length (AList.update k v' a) + length ts3" by (rule parse_loop_length_le)
  with k have "length r \<le> length a + length ts3" by (simp add: length_update)
  with la show ?thesis by simp
qed

lemma set_all_fields:
  "tag (set_all kvs e) = tag e \<and> etext (set_all kvs e) = etext e \<and>
   tail (set_all kvs e) = tail e \<and> children (set_all kvs e) = children e \<and>
   attrib (set_all kvs e) = fold (\<lambda>(k, v). AList.update k v) kvs (attrib e)"
  by (induction kvs e rule: set_all.induct) (auto simp: set_attr_def)

lemma map_of_fold_update:
  "map_of (fold (\<lambda>(k, v). AList.update k v) kvs al) = map_of al ++ map_of (rev kvs)"
  by (induction kvs arbitrary: al) (auto simp: update_conv')

lemma distinct_fold_update:
  "distinct (map fst al) \<Longrightarrow> distinct (map fst (fold (\<lambda>(k, v). AList.update k v) kvs al))"
  by (induction kvs arbitrary: al) (auto simp: distinct_update)

lemma dom_fold_update:
  "fst ` set (fold (\<lambda>(k, v). AList.update k v) kvs al) = fst ` set al \<union> fst ` set kvs"
proof (induction kvs arbitrary: al)
  case Nil
  then show ?case by simp
next
  case (Cons kv kvs)
  obtain k v where kv: "kv = (k, v)" by (cases kv)
  have "fst ` set (fold (\<lambda>(k, v). AList.update k v) kvs (AList.update k v al)) =
      fst ` set (AList.update k v al) \<union> fst ` set kvs"
    by (rule Cons.IH)
  then show ?case unfolding dom_update kv by auto
qed

lemma map_of_rev_distinct: "distinct (map fst xs) \<Longrightarrow> map_of (rev xs) = map_of xs"
  by (rule map_of_inject_set [THEN iffD2]) (simp_all add: rev_map [symmetric])

lemma enclosure_fields:
  "tag (enclosure build attrs) = ''enclosure'' \<and> etext (enclosure build attrs) = None \<and>
   tail (enclosure build attrs) = None \<and> children (enclosure build attrs) = [] \<and>
   attrib (enclosure build attrs) =
     fold (\<lambda>(k, v). AList.update k v) attrs
       [(''url'', enclosure_url build), (''type'', ''application/octet-stream'')]"
  by (simp add: enclosure_def set_all_fields set_attr_def new_element_def)

lemma new_item_eq:
  "new_item build commit now attrs =
     Element ''item'' [] None None
       [Element ''title'' [] (Some (''Build '' @ build)) None [],
        Element ''pubDate'' [] (Some now) None [],
        Element ''sparkle:version'' [] (Some build) None [],
        Element ''sparkle:shortVersionString'' [] (Some commit) None [],
        Element ''sparkle:minimumSystemVersion'' [] (Some ''12.0.0'') None [],
        Element ''description'' [] (Some (description commit)) None [],
        enclosure build attrs]"
  by (simp add: new_item_def Let_def append_elem_def set_text_def new_element_def)

lemma find_idx_Some:
  "find_idx t es = Some i \<Longrightarrow> i < length es \<and> tag (es ! i) = t \<and> (\<forall>j<i. tag (es ! j) \<noteq> t)"
proof (induction es arbitrary: i)
  case Nil
  then show ?case by simp
next
  case (Cons e es)
  show ?case
  proof (cases "tag e = t")
    case True
    with Cons.prems show ?thesis by simp
  next
    case False
    with Cons.prems obtain i' where i': "find_idx t es = Some i'" "i = Suc i'" by auto
    from Cons.IH [OF i'(1)] False i'(2) show ?thesis
      by (auto simp: less_Suc_eq_0_disj)
  qed
qed

lemma find_idx_None: "find_idx t es = None \<longleftrightarrow> (\<forall>e\<in>set es. tag e \<noteq> t)"
  by (induction es) auto

lemma find_idx_update:
  "find_idx t es = Some i \<Longrightarrow> tag e' = t \<Longrightarrow> find_idx t (es[i := e']) = Some i"
proof (induction es arbitrary: i)
  case Nil
  then show ?case by simp
next
  case (Cons e es)
  then show ?case by (cases "tag e = t") auto
qed

subsection \<open>The run\<close>

lemma run_parse_fail:
  "sign_update_txt w = Some content \<Longrightarrow> parse_attrs content = Inl e \<Longrightarrow> \<exists>e'. run w = (Inl e', w)"
  by (simp add: run_def split: option.splits)

lemma run_parse_fail_exact:
  "environ w ''GHOSTTY_BUILD'' = Some build \<Longrightarrow> environ w ''GHOSTTY_COMMIT'' = Some commit \<Longrightarrow>
   sign_update_txt w = Some content \<Longrightarrow> parse_attrs content = Inl e \<Longrightarrow> run w = (Inl e, w)"
  by (simp add: run_def)

subsection \<open>Tokens with distinct keys, the enclosure, the channel and the write\<close>

lemma parse_attrs_tokens:
  assumes "list_all (\<lambda>t. CHR ''='' \<in> set t \<and> strip (token_value t) \<noteq> []) ts"
    "distinct (map token_key ts)"
  shows "parse_loop ts [] =
    Inr (map (\<lambda>t. (token_key t,
                     if hd (strip (token_value t)) = dquote
                     then slice_1_m1 (strip (token_value t)) else strip (token_value t))) ts)"
    (is "_ = Inr (map ?f ts)")
proof -
  from assms(1) have "list_all2 (\<lambda>t kv. parse_pair t = Inr kv) ts (map ?f ts)"
    by (simp add: list_all2_map2 list_all_iff parse_pair_token list_all2_same)
  moreover from assms(2) have "distinct (map fst [] @ map fst (map ?f ts))"
    by (simp add: comp_def)
  ultimately have "parse_loop ts [] = Inr ([] @ map ?f ts)" by (rule parse_loop_fresh_keys)
  then show ?thesis by simp
qed

lemma only_entry:
  "distinct (map fst al) \<Longrightarrow> map_of al k = Some v \<Longrightarrow> filter (\<lambda>kv. fst kv = k) al = [(k, v)]"
proof (induction al)
  case Nil
  then show ?case by simp
next
  case (Cons a al)
  show ?case
  proof (cases "fst a = k")
    case True
    with Cons.prems have "a = (k, v)" by (cases a) auto
    moreover have "filter (\<lambda>kv. fst kv = k) al = []"
    proof (rule ccontr)
      assume "filter (\<lambda>kv. fst kv = k) al \<noteq> []"
      then obtain kv where "kv \<in> set al" "fst kv = k"
        by (auto simp: filter_empty_conv)
      then have "k \<in> fst ` set al" by force
      with Cons.prems(1) True show False by simp
    qed
    ultimately show ?thesis by simp
  next
    case False
    with Cons show ?thesis by (cases a) auto
  qed
qed

lemma parse_attrs_distinct:
  assumes "parse_attrs content = Inr attrs"
  shows "distinct (map fst attrs)"
proof -
  from assms have "parse_loop (str_split (CHR '' '') content) [] = Inr attrs"
    by (simp add: parse_attrs_def)
  moreover have "distinct (map fst ([] :: (string \<times> string) list))" by simp
  ultimately show ?thesis by (rule parse_loop_distinct)
qed

lemma enclosure_map_of:
  "distinct (map fst attrs) \<Longrightarrow>
   map_of (attrib (enclosure build attrs)) =
     map_of [(''url'', enclosure_url build), (''type'', ''application/octet-stream'')] ++
     map_of attrs"
  by (simp only: enclosure_fields map_of_fold_update map_of_rev_distinct)

lemma new_item_texts:
  "map (\<lambda>c. (tag c, etext c)) (children (new_item build commit now attrs)) =
      [(''title'', Some (''Build '' @ build)),
       (''pubDate'', Some now),
       (''sparkle:version'', Some build),
       (''sparkle:shortVersionString'', Some commit),
       (''sparkle:minimumSystemVersion'', Some ''12.0.0''),
       (''description'', Some (description commit)),
       (''enclosure'', None)]"
  by (simp add: new_item_eq enclosure_fields)

lemma contains_tag_child:
  "\<not> contains_tag t root \<Longrightarrow> \<forall>c\<in>set (children root). tag c \<noteq> t"
proof (cases root)
  case (Element t' a x y cs)
  assume "\<not> contains_tag t root"
  with Element have "\<forall>c\<in>set cs. \<not> contains_tag t c" by simp
  moreover have "tag c = t \<Longrightarrow> contains_tag t c" for c by (cases c) simp
  ultimately show ?thesis using Element by auto
qed

lemma channel_of_append_item:
  assumes "find_tag root ''channel'' = Some i"
  shows "channel_of root = Some (children root ! i) \<and>
    find_tag (append_item root i item) ''channel'' = Some i \<and>
    channel_of (append_item root i item) = Some (append_elem (children root ! i) item) \<and>
    children (append_item root i item) = (children root)[i := append_elem (children root ! i) item]"
proof -
  from assms have i: "i < length (children root)" "tag (children root ! i) = ''channel''"
    using find_idx_Some [of "''channel''" "children root" i] by (simp_all add: find_tag_def)
  have "tag (append_elem (children root ! i) item) = ''channel''"
    using i(2) by (simp add: append_elem_def)
  with assms have "find_idx ''channel'' ((children root)[i := append_elem (children root ! i) item]) = Some i"
    unfolding find_tag_def by (rule find_idx_update)
  then have f: "find_tag (append_item root i item) ''channel'' = Some i"
    by (simp add: find_tag_def append_item_def)
  with i(1) have "channel_of (append_item root i item) = Some (append_elem (children root ! i) item)"
    by (simp add: channel_of_def append_item_def)
  with assms f show ?thesis by (simp add: channel_of_def append_item_def)
qed


lemma serializable_sel:
  "serializable e =
     (qname_ok (tag e) \<and> list_all qname_ok (map fst (attrib e)) \<and>
      list_all serializable (children e))"
  by (cases e) simp

lemma serializable_enclosure:
  "serializable (enclosure build attrs) = list_all qname_ok (map fst attrs)"
proof -
  have "serializable (enclosure build attrs) =
      list_all qname_ok (map fst (attrib (enclosure build attrs)))"
    by (subst serializable_sel) (simp add: enclosure_fields qname_ok_def)
  also have "\<dots> = (\<forall>k\<in>fst ` set (attrib (enclosure build attrs)). qname_ok k)"
    by (simp add: list_all_iff)
  also have "\<dots> = (\<forall>k\<in>{''url'', ''type''} \<union> fst ` set attrs. qname_ok k)"
    by (simp add: enclosure_fields dom_fold_update)
  also have "\<dots> = list_all qname_ok (map fst attrs)"
    by (auto simp: list_all_iff qname_ok_def)
  finally show ?thesis .
qed

lemma serializable_new_item:
  "serializable (new_item build commit now attrs) = list_all qname_ok (map fst attrs)"
  by (simp add: new_item_eq serializable_enclosure qname_ok_def)

lemma serializable_append_elem:
  "serializable (append_elem channel item) = (serializable channel \<and> serializable item)"
  by (cases channel) (auto simp: append_elem_def)

lemma list_all_update:
  assumes "i < length xs" "P y = (P (xs ! i) \<and> Q)"
  shows "list_all P (xs[i := y]) = (list_all P xs \<and> Q)"
proof -
  have "list_all P (xs[i := y]) = (\<forall>j<length xs. P (xs[i := y] ! j))"
    by (simp add: list_all_length)
  also have "\<dots> = ((\<forall>j<length xs. j \<noteq> i \<longrightarrow> P (xs ! j)) \<and> P y)"
    using assms(1) by (auto simp: nth_list_update)
  also have "\<dots> = ((\<forall>j<length xs. P (xs ! j)) \<and> Q)"
    using assms by auto
  finally show ?thesis by (simp add: list_all_length)
qed

lemma serializable_append_item:
  assumes "i < length (children root)"
  shows "serializable (append_item root i item) = (serializable root \<and> serializable item)"
proof (cases root)
  case (Element t a x y cs)
  with assms have i: "i < length cs" by simp
  have "list_all serializable (cs[i := append_elem (cs ! i) item]) =
      (list_all serializable cs \<and> serializable item)"
    using i by (rule list_all_update) (rule serializable_append_elem)
  with Element show ?thesis by (auto simp: append_item_def)
qed


lemma run_success:
  "run w = (Inr u, w') \<longleftrightarrow>
     (\<exists>build commit content attrs root i.
        environ w ''GHOSTTY_BUILD'' = Some build \<and> environ w ''GHOSTTY_COMMIT'' = Some commit \<and>
        sign_update_txt w = Some content \<and> parse_attrs content = Inr attrs \<and>
        appcast_xml w = Some (Document root) \<and> find_tag root ''channel'' = Some i \<and>
        serializable (append_item root i (new_item build commit (now_text w) attrs)) \<and>
        w' = w\<lparr>appcast_new_xml :=
               Some (Written (append_item root i (new_item build commit (now_text w) attrs)))\<rparr>)"
  by (auto simp: run_def et_write_def split: option.splits sum.splits xml.splits)

lemma run_no_channel:
  "appcast_xml w = Some (Document root) \<Longrightarrow> find_tag root ''channel'' = None \<Longrightarrow>
   \<exists>e. run w = (Inl e, w)"
  by (auto simp: run_def split: option.splits sum.splits xml.splits)



subsection \<open>The script on concrete inputs\<close>

text \<open>The example feed, the example signature and the run on them.\<close>

lemma example_feed_serializable: "serializable example_feed"
  by (simp add: example_feed_def example_channel_def qname_ok_def)

lemma example_feed_length: "0 < length (children example_feed)"
  by (simp add: example_feed_def)

lemma example_parse:
  \<open>parse_attrs ''edSignature="MC0CFQ..." length="512"'' =
     Inr [(''edSignature'', ''MC0CFQ...''), (''length'', ''512'')]\<close>
  by (simp add: parse_attrs_def parse_pair_def str_split1_def strip_def isspace_def dquote_def
      slice_1_m1_def)

lemma example_run:
  \<open>run (example_world ''edSignature="MC0CFQ..." length="512"'' (Some (Document example_feed))) =
     (Inr (),
      (example_world ''edSignature="MC0CFQ..." length="512"'' (Some (Document example_feed)))
        \<lparr>appcast_new_xml :=
           Some (Written (append_item example_feed 0
                  (new_item ''1234'' ''abcd123'' ''Mon, 02 Jan 2006 15:04:05 +0000''
                     [(''edSignature'', ''MC0CFQ...''), (''length'', ''512'')])))\<rparr>)\<close>
proof -
  have "serializable (append_item example_feed 0
      (new_item ''1234'' ''abcd123'' ''Mon, 02 Jan 2006 15:04:05 +0000''
         [(''edSignature'', ''MC0CFQ...''), (''length'', ''512'')]))"
    unfolding serializable_append_item [OF example_feed_length]
    by (simp add: example_feed_serializable serializable_new_item qname_ok_def)
  then show ?thesis
    by (simp add: run_def et_write_def example_world_def example_parse find_tag_def
        example_feed_def example_channel_def)
qed

lemma example_parse_url:
  \<open>parse_attrs ''url=https://example.org/a.zip length="512"'' =
     Inr [(''url'', ''https://example.org/a.zip''), (''length'', ''512'')]\<close>
  by (simp add: parse_attrs_def parse_pair_def str_split1_def strip_def isspace_def dquote_def
      slice_1_m1_def)

lemma example_run_url:
  \<open>fst (run (example_world ''url=https://example.org/a.zip length="512"''
              (Some (Document example_feed)))) = Inr ()\<close>
proof -
  have "serializable (append_item example_feed 0
      (new_item ''1234'' ''abcd123'' ''Mon, 02 Jan 2006 15:04:05 +0000''
         [(''url'', ''https://example.org/a.zip''), (''length'', ''512'')]))"
    unfolding serializable_append_item [OF example_feed_length]
    by (simp add: example_feed_serializable serializable_new_item qname_ok_def)
  then show ?thesis
    by (simp add: run_def et_write_def example_world_def example_parse_url find_tag_def
        example_feed_def example_channel_def)
qed

text \<open>
  What the parse makes of some other signature files: a newline at the end is trimmed
  from the last value; a later token with the same key replaces the value of the earlier
  one; a newline between two tokens does not separate them; two spaces in a row make an
  empty token, which has no \<^verbatim>\<open>=\<close>.
\<close>

lemma parse_attrs_trailing_newline:
  \<open>parse_attrs (''edSignature="MC0CFQ..." length="512"'' @ [NL]) =
     Inr [(''edSignature'', ''MC0CFQ...''), (''length'', ''512'')]\<close>
  by (simp add: parse_attrs_def parse_pair_def str_split1_def strip_def isspace_def dquote_def
      slice_1_m1_def NL_def)

lemma parse_attrs_duplicate_key: "parse_attrs ''a=1 b=2 a=3'' = Inr [(''a'', ''3''), (''b'', ''2'')]"
  by (simp add: parse_attrs_def parse_pair_def str_split1_def strip_def isspace_def dquote_def)

lemma parse_attrs_newline_separated:
  \<open>parse_attrs (''a=1'' @ [NL] @ ''b=2'') = Inr [(''a'', ''1'' @ [NL] @ ''b=2'')]\<close>
  by (simp add: parse_attrs_def parse_pair_def str_split1_def strip_def isspace_def dquote_def
      slice_1_m1_def NL_def)

lemma parse_attrs_two_spaces: \<open>parse_attrs ''a=1  b=2'' = Inl ValueError\<close>
  by (simp add: parse_attrs_def parse_pair_def str_split1_def strip_def isspace_def dquote_def
      slice_1_m1_def)

text \<open>\<^verbatim>\<open>find("channel")\<close> looks at the children of the root only: a channel further down
  is not found.\<close>

lemma nested_channel_not_found:
  "contains_tag ''channel''
     (Element ''rss'' [] None None [Element ''feed'' [] None None [Element ''channel'' [] None None []]]) \<and>
   find_tag
     (Element ''rss'' [] None None [Element ''feed'' [] None None [Element ''channel'' [] None None []]])
     ''channel'' = None"
  by (simp add: find_tag_def)

section \<open>Properties\<close>

text \<open>
  Claim C1, as stated, fails on the blob it names. The text is split at every space
  before any quote is looked at, so \<^verbatim>\<open>k2="v2 with spaces"\<close> becomes three tokens, and the
  token \<^verbatim>\<open>with\<close> has no \<^verbatim>\<open>=\<close>: the parse raises \<open>ValueError\<close> and yields no map.
\<close>

theorem parse_attrs_quoted_with_spaces_counterexample:
  \<open>parse_attrs ''k1=v1 k2="v2 with spaces"'' = Inl ValueError\<close>
  by (simp add: parse_attrs_def parse_pair_def str_split1_def strip_def isspace_def dquote_def
      slice_1_m1_def)

text \<open>
  Claim C1, amended. Take a blob whose tokens, split at single spaces, each have a \<^verbatim>\<open>=\<close>
  and a value that is not empty after trimming, and whose keys are pairwise distinct.
  Then the parse yields a map with one entry per token, in the order of the tokens. A
  value that, trimmed, is enclosed in double quotes is stored without the two quotes; a
  value that, trimmed, does not start with a double quote is stored trimmed.
\<close>

theorem parse_attrs_wellformed:
  assumes "list_all (\<lambda>t. CHR ''='' \<in> set t \<and> strip (token_value t) \<noteq> [])
             (str_split (CHR '' '') content)"
    "distinct (map token_key (str_split (CHR '' '') content))"
  shows "\<exists>attrs. parse_attrs content = Inr attrs \<and>
    length attrs = length (str_split (CHR '' '') content) \<and>
    map fst attrs = map token_key (str_split (CHR '' '') content) \<and>
    (\<forall>t\<in>set (str_split (CHR '' '') content).
       (\<forall>mid. strip (token_value t) = dquote # mid @ [dquote] \<longrightarrow>
          map_of attrs (token_key t) = Some mid) \<and>
       (hd (strip (token_value t)) \<noteq> dquote \<longrightarrow>
          map_of attrs (token_key t) = Some (strip (token_value t))))"
proof -
  let ?ts = "str_split (CHR '' '') content"
  let ?f = "\<lambda>t. (token_key t,
                     if hd (strip (token_value t)) = dquote
                     then slice_1_m1 (strip (token_value t)) else strip (token_value t))"
  let ?attrs = "map ?f ?ts"
  from assms have p: "parse_attrs content = Inr ?attrs"
    unfolding parse_attrs_def by (rule parse_attrs_tokens)
  have k: "map fst ?attrs = map token_key ?ts" by (simp add: comp_def)
  from assms(2) have d: "distinct (map fst ?attrs)" by (simp add: comp_def)
  have m: "map_of ?attrs (token_key t) = Some (snd (?f t))" if "t \<in> set ?ts" for t
  proof -
    from that have "?f t \<in> set ?attrs" by simp
    then have "(token_key t, snd (?f t)) \<in> set ?attrs" by simp
    with d show ?thesis by (rule map_of_is_SomeI)
  qed
  have q: "\<forall>t\<in>set ?ts.
       (\<forall>mid. strip (token_value t) = dquote # mid @ [dquote] \<longrightarrow>
          map_of ?attrs (token_key t) = Some mid) \<and>
       (hd (strip (token_value t)) \<noteq> dquote \<longrightarrow>
          map_of ?attrs (token_key t) = Some (strip (token_value t)))"
  proof (intro ballI conjI allI impI)
    fix t mid
    assume t: "t \<in> set ?ts" and "strip (token_value t) = dquote # mid @ [dquote]"
    then have "snd (?f t) = mid" by (simp add: slice_quoted)
    with m [OF t] show "map_of ?attrs (token_key t) = Some mid" by simp
  next
    fix t
    assume t: "t \<in> set ?ts" and "hd (strip (token_value t)) \<noteq> dquote"
    then have "snd (?f t) = strip (token_value t)" by simp
    with m [OF t] show "map_of ?attrs (token_key t) = Some (strip (token_value t))" by simp
  qed
  have "length ?attrs = length ?ts" by simp
  with p k q show ?thesis by blast
qed

text \<open>
  The blob \<^verbatim>\<open>edSignature="MC0CFQ..." length=512\<close> meets the two conditions and parses to two
  entries.
\<close>

theorem parse_attrs_wellformed_witness:
  \<open>list_all (\<lambda>t. CHR ''='' \<in> set t \<and> strip (token_value t) \<noteq> [])
     (str_split (CHR '' '') ''edSignature="MC0CFQ..." length=512'') \<and>
   distinct (map token_key (str_split (CHR '' '') ''edSignature="MC0CFQ..." length=512'')) \<and>
   (\<exists>attrs. parse_attrs ''edSignature="MC0CFQ..." length=512'' = Inr attrs \<and>
      length attrs = 2 \<and>
      map_of attrs ''edSignature'' = Some ''MC0CFQ...'' \<and>
      map_of attrs ''length'' = Some ''512'')\<close>
proof -
  let ?c = \<open>''edSignature="MC0CFQ..." length=512''\<close>
  have ts: \<open>str_split (CHR '' '') ?c = [''edSignature="MC0CFQ..."'', ''length=512'']\<close>
    by simp
  have v1: \<open>strip (token_value ''edSignature="MC0CFQ..."'') = dquote # ''MC0CFQ...'' @ [dquote]\<close>
    by (simp add: token_value_def strip_def isspace_def dquote_def)
  have v2: \<open>strip (token_value ''length=512'') = ''512''\<close>
    by (simp add: token_value_def strip_def isspace_def)
  have k1: \<open>token_key ''edSignature="MC0CFQ..."'' = ''edSignature''\<close>
    by (simp add: token_key_def)
  have k2: \<open>token_key ''length=512'' = ''length''\<close>
    by (simp add: token_key_def)
  have 1: "list_all (\<lambda>t. CHR ''='' \<in> set t \<and> strip (token_value t) \<noteq> [])
     (str_split (CHR '' '') ?c)"
    unfolding ts by (simp add: v1 v2)
  have 2: "distinct (map token_key (str_split (CHR '' '') ?c))"
    unfolding ts by (simp add: k1 k2)
  from parse_attrs_wellformed [OF 1 2] obtain attrs where a: "parse_attrs ?c = Inr attrs"
    "length attrs = length (str_split (CHR '' '') ?c)"
    and q: "\<forall>t\<in>set (str_split (CHR '' '') ?c).
       (\<forall>mid. strip (token_value t) = dquote # mid @ [dquote] \<longrightarrow>
          map_of attrs (token_key t) = Some mid) \<and>
       (hd (strip (token_value t)) \<noteq> dquote \<longrightarrow>
          map_of attrs (token_key t) = Some (strip (token_value t)))"
    by blast
  from q v1 have \<open>map_of attrs (token_key ''edSignature="MC0CFQ..."'') = Some ''MC0CFQ...''\<close>
    unfolding ts by simp
  then have m1: "map_of attrs ''edSignature'' = Some ''MC0CFQ...''" by (simp only: k1)
  from q have "hd (strip (token_value ''length=512'')) \<noteq> dquote \<longrightarrow>
      map_of attrs (token_key ''length=512'') = Some (strip (token_value ''length=512''))"
    unfolding ts by simp
  then have m2: "map_of attrs ''length'' = Some ''512''"
    unfolding v2 k2 by (simp add: dquote_def)
  from a(2) have "length attrs = 2" unfolding ts by simp
  with 1 2 a(1) m1 m2 show ?thesis by blast
qed

text \<open>
  Claim C2. Let the feed parse to a tree in which no element, the root included, has the
  tag \<^verbatim>\<open>channel\<close>. Then \<^verbatim>\<open>find("channel")\<close> returns \<^verbatim>\<open>None\<close>, the run ends with an exception
  and the world is as it was before the run: no output file is created. When the steps
  before the lookup pass (both variables set, the signature file read and parsed), the
  exception is the \<open>TypeError\<close> that \<^verbatim>\<open>SubElement(None, "item")\<close> raises, which is the
  script's form of the missing-channel failure.
\<close>

theorem missing_channel_aborts:
  assumes "appcast_xml w = Some (Document root)" "\<not> contains_tag ''channel'' root"
  shows "find_tag root ''channel'' = None \<and>
    (\<exists>e. run w = (Inl e, w)) \<and>
    (environ w ''GHOSTTY_BUILD'' \<noteq> None \<and> environ w ''GHOSTTY_COMMIT'' \<noteq> None \<and>
     (\<exists>content attrs. sign_update_txt w = Some content \<and> parse_attrs content = Inr attrs) \<longrightarrow>
       run w = (Inl TypeError, w))"
proof -
  from assms(2) have "\<forall>c\<in>set (children root). tag c \<noteq> ''channel''"
    by (rule contains_tag_child)
  then have 1: "find_tag root ''channel'' = None"
    by (simp add: find_tag_def find_idx_None)
  with assms(1) have 2: "\<exists>e. run w = (Inl e, w)" by (rule run_no_channel)
  have 3: "run w = (Inl TypeError, w)"
    if "environ w ''GHOSTTY_BUILD'' \<noteq> None" "environ w ''GHOSTTY_COMMIT'' \<noteq> None"
      "\<exists>content attrs. sign_update_txt w = Some content \<and> parse_attrs content = Inr attrs"
    using that assms(1) 1 by (auto simp: run_def)
  from 1 2 3 show ?thesis by blast
qed

text \<open>
  A feed whose root holds a \<^verbatim>\<open>title\<close> and no \<^verbatim>\<open>channel\<close>.
\<close>

theorem missing_channel_aborts_witness:
  \<open>appcast_xml (example_world ''length="512"'' (Some (Document feed_without_channel))) =
     Some (Document feed_without_channel) \<and>
   \<not> contains_tag ''channel'' feed_without_channel \<and>
   run (example_world ''length="512"'' (Some (Document feed_without_channel))) =
     (Inl TypeError, example_world ''length="512"'' (Some (Document feed_without_channel)))\<close>
proof -
  let ?w = \<open>example_world ''length="512"'' (Some (Document feed_without_channel))\<close>
  have 1: "appcast_xml ?w = Some (Document feed_without_channel)"
    by (simp add: example_world_def)
  have 2: "\<not> contains_tag ''channel'' feed_without_channel"
    by (simp add: feed_without_channel_def)
  have \<open>parse_attrs ''length="512"'' = Inr [(''length'', ''512'')]\<close>
    by (simp add: parse_attrs_def parse_pair_def str_split1_def strip_def isspace_def dquote_def
        slice_1_m1_def)
  then have 3: "environ ?w ''GHOSTTY_BUILD'' \<noteq> None \<and> environ ?w ''GHOSTTY_COMMIT'' \<noteq> None \<and>
     (\<exists>content attrs. sign_update_txt ?w = Some content \<and> parse_attrs content = Inr attrs)"
    by (simp add: example_world_def)
  from missing_channel_aborts [OF 1 2] 3 have "run ?w = (Inl TypeError, ?w)" by blast
  with 1 2 show ?thesis by blast
qed



text \<open>
  Claim C4. After a run that ends without an exception, the new item is the last child of
  the channel of the output, and it has exactly one \<^verbatim>\<open>enclosure\<close> child, its last child,
  with no text and no children. The attributes of the enclosure, as a map, are the two
  fixed attributes overridden by the signature's map: \<^verbatim>\<open>url\<close> is the template with the
  build identifier in it and \<^verbatim>\<open>type\<close> is \<^verbatim>\<open>application/octet-stream\<close>, unless the
  signature has that key, and every entry of the signature's map is an attribute with
  the same value. No attribute name occurs twice, and the attribute names are \<^verbatim>\<open>url\<close>,
  \<^verbatim>\<open>type\<close> and the keys of the signature.
\<close>

theorem enclosure_attributes:
  assumes "run w = (Inr (), w')"
  shows "\<exists>build content attrs root' channel' item enc.
    environ w ''GHOSTTY_BUILD'' = Some build \<and>
    sign_update_txt w = Some content \<and> parse_attrs content = Inr attrs \<and>
    appcast_new_xml w' = Some (Written root') \<and> channel_of root' = Some channel' \<and>
    item = last (children channel') \<and>
    filter (\<lambda>c. tag c = ''enclosure'') (children item) = [enc] \<and> last (children item) = enc \<and>
    etext enc = None \<and> children enc = [] \<and>
    map_of (attrib enc) =
      map_of [(''url'', ''https://tip.files.ghostty.dev/'' @ build @ ''/ghostty-macos-universal.zip''),
              (''type'', ''application/octet-stream'')] ++ map_of attrs \<and>
    distinct (map fst (attrib enc)) \<and> distinct (map fst attrs) \<and>
    fst ` set (attrib enc) = {''url'', ''type''} \<union> fst ` set attrs \<and>
    (\<forall>k v. map_of attrs k = Some v \<longrightarrow> map_of (attrib enc) k = Some v) \<and>
    (''url'' \<notin> fst ` set attrs \<longrightarrow>
       map_of (attrib enc) ''url'' =
         Some (''https://tip.files.ghostty.dev/'' @ build @ ''/ghostty-macos-universal.zip'')) \<and>
    (''type'' \<notin> fst ` set attrs \<longrightarrow>
       map_of (attrib enc) ''type'' = Some ''application/octet-stream'')"
proof -
  from assms obtain build commit content attrs root i where
    s: "environ w ''GHOSTTY_BUILD'' = Some build"
      "sign_update_txt w = Some content" "parse_attrs content = Inr attrs"
      "find_tag root ''channel'' = Some i"
      "w' = w\<lparr>appcast_new_xml :=
               Some (Written (append_item root i (new_item build commit (now_text w) attrs)))\<rparr>"
    unfolding run_success by blast
  let ?item = "new_item build commit (now_text w) attrs"
  let ?root' = "append_item root i ?item"
  let ?channel' = "append_elem (children root ! i) ?item"
  let ?enc = "enclosure build attrs"
  let ?url = "''https://tip.files.ghostty.dev/'' @ build @ ''/ghostty-macos-universal.zip''"
  have o: "appcast_new_xml w' = Some (Written ?root')" using s(5) by simp
  from channel_of_append_item [OF s(4), of ?item]
  have c: "channel_of ?root' = Some ?channel'" by simp
  have l: "?item = last (children ?channel')" by (simp add: append_elem_def)
  have t: "tag ?enc = ''enclosure''" "etext ?enc = None" "children ?enc = []"
    by (simp_all add: enclosure_fields)
  then have f: "filter (\<lambda>c. tag c = ''enclosure'') (children ?item) = [?enc]"
    "last (children ?item) = ?enc"
    by (simp_all add: new_item_eq)
  from s(3) have d: "distinct (map fst attrs)" by (rule parse_attrs_distinct)
  then have m: "map_of (attrib ?enc) =
      map_of [(''url'', ?url), (''type'', ''application/octet-stream'')] ++ map_of attrs"
    by (simp only: enclosure_map_of enclosure_url_def)
  have de: "distinct (map fst (attrib ?enc))"
    by (simp add: enclosure_fields distinct_fold_update)
  have dm: "fst ` set (attrib ?enc) = {''url'', ''type''} \<union> fst ` set attrs"
    by (simp add: enclosure_fields dom_fold_update)
  have w1: "\<forall>k v. map_of attrs k = Some v \<longrightarrow> map_of (attrib ?enc) k = Some v"
    unfolding m by (simp add: map_add_Some_iff)
  have w2: "''url'' \<notin> fst ` set attrs \<longrightarrow> map_of (attrib ?enc) ''url'' = Some ?url"
    unfolding m by (simp add: map_add_Some_iff map_of_eq_None_iff)
  have w3: "''type'' \<notin> fst ` set attrs \<longrightarrow>
      map_of (attrib ?enc) ''type'' = Some ''application/octet-stream''"
    unfolding m by (simp add: map_add_Some_iff map_of_eq_None_iff)
  show ?thesis
    using s(1-3) o c l f t(2,3) m de d dm w1 w2 w3 by blast
qed

text \<open>
  A signature that has the key \<^verbatim>\<open>url\<close>: its value is the one on the enclosure.
\<close>

theorem enclosure_attributes_witness:
  \<open>fst (run (example_world ''url=https://example.org/a.zip length="512"''
              (Some (Document example_feed)))) = Inr () \<and>
   (\<exists>root' channel' enc.
      appcast_new_xml
        (snd (run (example_world ''url=https://example.org/a.zip length="512"''
                (Some (Document example_feed))))) = Some (Written root') \<and>
      channel_of root' = Some channel' \<and>
      last (children (last (children channel'))) = enc \<and>
      map_of (attrib enc) ''url'' = Some ''https://example.org/a.zip'' \<and>
      map_of (attrib enc) ''length'' = Some ''512'' \<and>
      map_of (attrib enc) ''type'' = Some ''application/octet-stream'' \<and>
      fst ` set (attrib enc) = {''url'', ''type'', ''length''})\<close>
proof -
  let ?c = \<open>''url=https://example.org/a.zip length="512"''\<close>
  let ?w = "example_world ?c (Some (Document example_feed))"
  have f: "fst (run ?w) = Inr ()" by (rule example_run_url)
  then have 1: "run ?w = (Inr (), snd (run ?w))" by (simp add: prod_eq_iff)
  have e: "sign_update_txt ?w = Some ?c" by (simp add: example_world_def)
  from enclosure_attributes [OF 1] obtain build content attrs root' channel' item enc where
    r: "sign_update_txt ?w = Some content" "parse_attrs content = Inr attrs"
      "appcast_new_xml (snd (run ?w)) = Some (Written root')" "channel_of root' = Some channel'"
      "item = last (children channel')" "last (children item) = enc"
      "fst ` set (attrib enc) = {''url'', ''type''} \<union> fst ` set attrs"
      "\<forall>k v. map_of attrs k = Some v \<longrightarrow> map_of (attrib enc) k = Some v"
      "''type'' \<notin> fst ` set attrs \<longrightarrow>
         map_of (attrib enc) ''type'' = Some ''application/octet-stream''"
    by (elim exE conjE)
  from r(1) e have ct: "content = ?c" by simp
  from r(2) have a: "attrs = [(''url'', ''https://example.org/a.zip''), (''length'', ''512'')]"
    unfolding ct example_parse_url by simp
  from r(8) have "map_of (attrib enc) ''url'' = Some ''https://example.org/a.zip''"
    "map_of (attrib enc) ''length'' = Some ''512''"
    unfolding a by simp_all
  moreover from r(9) have "map_of (attrib enc) ''type'' = Some ''application/octet-stream''"
    unfolding a by simp
  moreover from r(7) have "fst ` set (attrib enc) = {''url'', ''type'', ''length''}"
    unfolding a by auto
  ultimately have "\<exists>root' channel' enc.
      appcast_new_xml (snd (run ?w)) = Some (Written root') \<and>
      channel_of root' = Some channel' \<and>
      last (children (last (children channel'))) = enc \<and>
      map_of (attrib enc) ''url'' = Some ''https://example.org/a.zip'' \<and>
      map_of (attrib enc) ''length'' = Some ''512'' \<and>
      map_of (attrib enc) ''type'' = Some ''application/octet-stream'' \<and>
      fst ` set (attrib enc) = {''url'', ''type'', ''length''}"
    using r(3,4) r(6) [unfolded r(5)] by (intro exI conjI)
  with f show ?thesis by (rule conjI)
qed

text \<open>
  Claim C5. For a token \<open>k=v\<close> in which \<open>k\<close> has no \<^verbatim>\<open>=\<close>, the split is at the first
  \<^verbatim>\<open>=\<close> only, so the key is \<open>k\<close> and \<open>v\<close> may hold further \<^verbatim>\<open>=\<close> characters. The value is
  \<open>v\<close> without its leading and trailing whitespace: \<open>v\<close> is whitespace, then
  \<open>strip v\<close>, then whitespace, and \<open>strip v\<close> neither starts nor ends with whitespace.
  When the trimmed value starts with a double quote, its first and its last character are
  removed, whatever the last character is; when it is the double quote alone, the result
  is empty. A trimmed value that does not start with a double quote is stored as it is.
\<close>

theorem parse_pair_first_eq_trim_dequote:
  assumes "CHR ''='' \<notin> set k"
  shows "str_split1 (CHR ''='') (k @ CHR ''='' # v) = [k, v] \<and>
    (\<exists>a b. v = a @ strip v @ b \<and> list_all isspace a \<and> list_all isspace b) \<and>
    (strip v \<noteq> [] \<longrightarrow> \<not> isspace (hd (strip v)) \<and> \<not> isspace (last (strip v))) \<and>
    (\<forall>mid c. strip v = dquote # mid @ [c] \<longrightarrow> parse_pair (k @ CHR ''='' # v) = Inr (k, mid)) \<and>
    (strip v = [dquote] \<longrightarrow> parse_pair (k @ CHR ''='' # v) = Inr (k, [])) \<and>
    (strip v \<noteq> [] \<and> hd (strip v) \<noteq> dquote \<longrightarrow> parse_pair (k @ CHR ''='' # v) = Inr (k, strip v))"
proof -
  have 1: "str_split1 (CHR ''='') (k @ CHR ''='' # v) = [k, v]"
    using assms by (rule str_split1_sep)
  have 2: "\<exists>a b. v = a @ strip v @ b \<and> list_all isspace a \<and> list_all isspace b"
    by (rule strip_decomp)
  have 3: "strip v \<noteq> [] \<longrightarrow> \<not> isspace (hd (strip v)) \<and> \<not> isspace (last (strip v))"
    using strip_ends by blast
  have 4: "\<forall>mid c. strip v = dquote # mid @ [c] \<longrightarrow> parse_pair (k @ CHR ''='' # v) = Inr (k, mid)"
    using assms by (simp add: parse_pair_eq slice_quoted)
  have 5: "strip v = [dquote] \<longrightarrow> parse_pair (k @ CHR ''='' # v) = Inr (k, [])"
    using assms by (simp add: parse_pair_eq slice_single)
  have 6: "strip v \<noteq> [] \<and> hd (strip v) \<noteq> dquote \<longrightarrow> parse_pair (k @ CHR ''='' # v) = Inr (k, strip v)"
    using assms by (simp add: parse_pair_eq)
  from 1 2 3 4 5 6 show ?thesis by blast
qed

text \<open>
  The value \<^verbatim>\<open>"a=bX\<close> followed by a newline: the newline is trimmed, the quote and the
  \<^verbatim>\<open>X\<close> are removed, the second \<^verbatim>\<open>=\<close> stays.
\<close>

theorem parse_pair_first_eq_trim_dequote_witness:
  \<open>CHR ''='' \<notin> set ''sig'' \<and>
   strip (''"a=bX'' @ [NL]) = dquote # ''a=b'' @ ''X'' \<and>
   parse_pair (''sig'' @ CHR ''='' # ''"a=bX'' @ [NL]) = Inr (''sig'', ''a=b'')\<close>
proof -
  have 1: "CHR ''='' \<notin> set ''sig''" by simp
  have 2: \<open>strip (''"a=bX'' @ [NL]) = dquote # ''a=b'' @ ''X''\<close>
    by (simp add: strip_def isspace_def dquote_def NL_def)
  from parse_pair_first_eq_trim_dequote [OF 1, of \<open>''"a=bX'' @ [NL]\<close>] 2
  have \<open>parse_pair (''sig'' @ CHR ''='' # ''"a=bX'' @ [NL]) = Inr (''sig'', ''a=b'')\<close>
    by blast
  with 1 2 show ?thesis by blast
qed







text \<open>
  Claim C8. After a run that ends without an exception, the new item is the last child of
  the channel of the output, its tag is \<^verbatim>\<open>item\<close>, and its children are, in order:
  \<^verbatim>\<open>title\<close> with the text \<^verbatim>\<open>Build\<close>, a space and the build identifier; \<^verbatim>\<open>pubDate\<close> with the
  formatted time; \<^verbatim>\<open>sparkle:version\<close> with the value of \<^verbatim>\<open>GHOSTTY_BUILD\<close>;
  \<^verbatim>\<open>sparkle:shortVersionString\<close> with the value of \<^verbatim>\<open>GHOSTTY_COMMIT\<close>;
  \<^verbatim>\<open>sparkle:minimumSystemVersion\<close> with \<^verbatim>\<open>12.0.0\<close>; \<^verbatim>\<open>description\<close>; and the
  \<^verbatim>\<open>enclosure\<close>, which has no text. This holds for every value of the two variables,
  the empty string included.
\<close>

theorem item_version_fields:
  assumes "run w = (Inr (), w')"
  shows "\<exists>build commit root' channel' item.
    environ w ''GHOSTTY_BUILD'' = Some build \<and> environ w ''GHOSTTY_COMMIT'' = Some commit \<and>
    appcast_new_xml w' = Some (Written root') \<and> channel_of root' = Some channel' \<and>
    item = last (children channel') \<and> tag item = ''item'' \<and>
    map (\<lambda>c. (tag c, etext c)) (children item) =
      [(''title'', Some (''Build '' @ build)),
       (''pubDate'', Some (now_text w)),
       (''sparkle:version'', Some build),
       (''sparkle:shortVersionString'', Some commit),
       (''sparkle:minimumSystemVersion'', Some ''12.0.0''),
       (''description'', Some (description commit)),
       (''enclosure'', None)]"
proof -
  from assms obtain build commit content attrs root i where
    s: "environ w ''GHOSTTY_BUILD'' = Some build" "environ w ''GHOSTTY_COMMIT'' = Some commit"
      "find_tag root ''channel'' = Some i"
      "w' = w\<lparr>appcast_new_xml :=
               Some (Written (append_item root i (new_item build commit (now_text w) attrs)))\<rparr>"
    unfolding run_success by blast
  let ?item = "new_item build commit (now_text w) attrs"
  let ?root' = "append_item root i ?item"
  let ?channel' = "append_elem (children root ! i) ?item"
  have o: "appcast_new_xml w' = Some (Written ?root')" using s(4) by simp
  from channel_of_append_item [OF s(3), of ?item]
  have c: "channel_of ?root' = Some ?channel'" by simp
  have l: "?item = last (children ?channel')" by (simp add: append_elem_def)
  have t: "tag ?item = ''item''" by (simp add: new_item_eq)
  have m: "map (\<lambda>c. (tag c, etext c)) (children ?item) =
      [(''title'', Some (''Build '' @ build)),
       (''pubDate'', Some (now_text w)),
       (''sparkle:version'', Some build),
       (''sparkle:shortVersionString'', Some commit),
       (''sparkle:minimumSystemVersion'', Some ''12.0.0''),
       (''description'', Some (description commit)),
       (''enclosure'', None)]"
    by (rule new_item_texts)
  show ?thesis
    by (intro exI conjI) (rule s(1) s(2) o c l t m)+
qed

text \<open>
  The example world, with build \<^verbatim>\<open>1234\<close> and commit \<^verbatim>\<open>abcd123\<close>.
\<close>

theorem item_version_fields_witness:
  \<open>fst (run (example_world ''edSignature="MC0CFQ..." length="512"''
              (Some (Document example_feed)))) = Inr () \<and>
   (\<exists>root' channel'.
      appcast_new_xml
        (snd (run (example_world ''edSignature="MC0CFQ..." length="512"''
                (Some (Document example_feed))))) = Some (Written root') \<and>
      channel_of root' = Some channel' \<and>
      map (\<lambda>c. (tag c, etext c)) (take 5 (children (last (children channel')))) =
        [(''title'', Some ''Build 1234''),
         (''pubDate'', Some ''Mon, 02 Jan 2006 15:04:05 +0000''),
         (''sparkle:version'', Some ''1234''),
         (''sparkle:shortVersionString'', Some ''abcd123''),
         (''sparkle:minimumSystemVersion'', Some ''12.0.0'')])\<close>
proof -
  let ?w = \<open>example_world ''edSignature="MC0CFQ..." length="512"'' (Some (Document example_feed))\<close>
  have f: "fst (run ?w) = Inr ()" by (simp add: example_run)
  then have 1: "run ?w = (Inr (), snd (run ?w))" by (simp add: prod_eq_iff)
  have e: "environ ?w ''GHOSTTY_BUILD'' = Some ''1234''"
    "environ ?w ''GHOSTTY_COMMIT'' = Some ''abcd123''"
    "now_text ?w = ''Mon, 02 Jan 2006 15:04:05 +0000''"
    by (simp_all add: example_world_def)
  from item_version_fields [OF 1] obtain build commit root' channel' item where
    r: "environ ?w ''GHOSTTY_BUILD'' = Some build" "environ ?w ''GHOSTTY_COMMIT'' = Some commit"
      "appcast_new_xml (snd (run ?w)) = Some (Written root')" "channel_of root' = Some channel'"
      "item = last (children channel')"
      "map (\<lambda>c. (tag c, etext c)) (children item) =
        [(''title'', Some (''Build '' @ build)),
         (''pubDate'', Some (now_text ?w)),
         (''sparkle:version'', Some build),
         (''sparkle:shortVersionString'', Some commit),
         (''sparkle:minimumSystemVersion'', Some ''12.0.0''),
         (''description'', Some (description commit)),
         (''enclosure'', None)]"
    by (elim exE conjE)
  from r(1,2) e(1,2) have b: "build = ''1234''" "commit = ''abcd123''" by simp_all
  have "map (\<lambda>c. (tag c, etext c)) (take 5 (children item)) =
      take 5 (map (\<lambda>c. (tag c, etext c)) (children item))"
    by (rule take_map [symmetric])
  also have "\<dots> = [(''title'', Some (''Build '' @ build)),
         (''pubDate'', Some (now_text ?w)),
         (''sparkle:version'', Some build),
         (''sparkle:shortVersionString'', Some commit),
         (''sparkle:minimumSystemVersion'', Some ''12.0.0'')]"
    unfolding r(6) by simp
  finally have "map (\<lambda>c. (tag c, etext c)) (take 5 (children (last (children channel')))) =
        [(''title'', Some ''Build 1234''),
         (''pubDate'', Some ''Mon, 02 Jan 2006 15:04:05 +0000''),
         (''sparkle:version'', Some ''1234''),
         (''sparkle:shortVersionString'', Some ''abcd123''),
         (''sparkle:minimumSystemVersion'', Some ''12.0.0'')]"
    unfolding b e(3) r(5) by simp
  with r(3,4) have "\<exists>root' channel'.
      appcast_new_xml (snd (run ?w)) = Some (Written root') \<and>
      channel_of root' = Some channel' \<and>
      map (\<lambda>c. (tag c, etext c)) (take 5 (children (last (children channel')))) =
        [(''title'', Some ''Build 1234''),
         (''pubDate'', Some ''Mon, 02 Jan 2006 15:04:05 +0000''),
         (''sparkle:version'', Some ''1234''),
         (''sparkle:shortVersionString'', Some ''abcd123''),
         (''sparkle:minimumSystemVersion'', Some ''12.0.0'')]"
    by (intro exI conjI)
  with f show ?thesis by (rule conjI)
qed

text \<open>
  Claim C9. A token that has a \<^verbatim>\<open>=\<close> and whose value is empty after trimming raises
  \<open>IndexError\<close> at \<^verbatim>\<open>value[0]\<close>. A signature file that contains such a token is never parsed
  to a dictionary, and the run on it ends with an exception and leaves the world as it
  was. So the parse returns a dictionary only if every token has a non-empty trimmed
  value. When every token of the file has a \<^verbatim>\<open>=\<close>, so that no unpacking fails, the
  exception of the parse, and of the run when both variables are set, is \<open>IndexError\<close>.
\<close>

theorem empty_value_raises_IndexError:
  assumes "t \<in> set (str_split (CHR '' '') content)" "CHR ''='' \<in> set t"
    "strip (token_value t) = []"
  shows "parse_pair t = Inl IndexError \<and>
    (\<exists>e. parse_attrs content = Inl e) \<and>
    (sign_update_txt w = Some content \<longrightarrow> (\<exists>e. run w = (Inl e, w))) \<and>
    ((\<forall>u\<in>set (str_split (CHR '' '') content). CHR ''='' \<in> set u) \<longrightarrow>
       parse_attrs content = Inl IndexError \<and>
       (sign_update_txt w = Some content \<and> environ w ''GHOSTTY_BUILD'' \<noteq> None \<and>
        environ w ''GHOSTTY_COMMIT'' \<noteq> None \<longrightarrow> run w = (Inl IndexError, w)))"
proof -
  from assms(2,3) have 1: "parse_pair t = Inl IndexError"
    by (simp add: parse_pair_token)
  with assms(1) have 2: "\<exists>e. parse_attrs content = Inl e"
    unfolding parse_attrs_def by (rule parse_loop_some_fail)
  then have 3: "sign_update_txt w = Some content \<longrightarrow> (\<exists>e. run w = (Inl e, w))"
    using run_parse_fail by blast
  have 4: "parse_attrs content = Inl IndexError"
    if all: "\<forall>u\<in>set (str_split (CHR '' '') content). CHR ''='' \<in> set u"
  proof -
    from assms(1) obtain ts1 ts2 where ts: "str_split (CHR '' '') content = ts1 @ t # ts2"
      by (auto simp: in_set_conv_decomp)
    have "\<forall>u\<in>set ts1. parse_pair u = Inl IndexError \<or> (\<exists>kv. parse_pair u = Inr kv)"
    proof
      fix u assume "u \<in> set ts1"
      with ts all have "CHR ''='' \<in> set u" by auto
      then show "parse_pair u = Inl IndexError \<or> (\<exists>kv. parse_pair u = Inr kv)"
        by (simp add: parse_pair_token)
    qed
    then have "parse_loop (ts1 @ t # ts2) [] = Inl IndexError"
      using 1 by (rule parse_loop_first_fail)
    with ts show ?thesis by (simp add: parse_attrs_def)
  qed
  have 5: "run w = (Inl IndexError, w)"
    if "\<forall>u\<in>set (str_split (CHR '' '') content). CHR ''='' \<in> set u"
      "sign_update_txt w = Some content" "environ w ''GHOSTTY_BUILD'' \<noteq> None"
      "environ w ''GHOSTTY_COMMIT'' \<noteq> None"
    using that 4 run_parse_fail_exact by auto
  from 1 2 3 4 5 show ?thesis by blast
qed

text \<open>
  The file \<^verbatim>\<open>length="512" key=\<close>.
\<close>

theorem empty_value_raises_IndexError_witness:
  \<open>''key='' \<in> set (str_split (CHR '' '') ''length="512" key='') \<and>
   CHR ''='' \<in> set ''key='' \<and> strip (token_value ''key='') = [] \<and>
   parse_pair ''key='' = Inl IndexError \<and>
   parse_attrs ''length="512" key='' = Inl IndexError \<and>
   run (example_world ''length="512" key='' (Some (Document example_feed))) =
     (Inl IndexError, example_world ''length="512" key='' (Some (Document example_feed)))\<close>
proof -
  let ?c = \<open>''length="512" key=''\<close>
  let ?w = "example_world ?c (Some (Document example_feed))"
  have 1: "''key='' \<in> set (str_split (CHR '' '') ?c)" by simp
  have 2: "CHR ''='' \<in> set ''key=''" by simp
  have 3: "strip (token_value ''key='') = []" by (simp add: token_value_def strip_def)
  have 4: "\<forall>u\<in>set (str_split (CHR '' '') ?c). CHR ''='' \<in> set u" by simp
  have 5: "sign_update_txt ?w = Some ?c \<and> environ ?w ''GHOSTTY_BUILD'' \<noteq> None \<and>
      environ ?w ''GHOSTTY_COMMIT'' \<noteq> None"
    by (simp add: example_world_def)
  from empty_value_raises_IndexError [OF 1 2 3, of ?w] 4 5
  have "parse_pair ''key='' = Inl IndexError \<and> parse_attrs ?c = Inl IndexError \<and>
      run ?w = (Inl IndexError, ?w)"
    by blast
  with 1 2 3 show ?thesis by blast
qed

text \<open>
  Claim C10. Let the parse succeed, and let \<open>t\<close> be the last token with the key \<open>k\<close>,
  with value \<open>v\<close>. Then the map has exactly one entry for \<open>k\<close>, and it holds \<open>v\<close>. The
  map never has more entries than the blob has tokens, and it has fewer when an earlier
  token has the key \<open>k\<close> too. The enclosure of the new item gets \<open>v\<close> for \<open>k\<close>.
\<close>

theorem duplicate_key_last_wins:
  assumes "parse_attrs content = Inr attrs"
    "str_split (CHR '' '') content = ts1 @ t # ts2"
    "parse_pair t = Inr (k, v)"
    "list_all (\<lambda>u. \<forall>v'. parse_pair u \<noteq> Inr (k, v')) ts2"
  shows "map_of attrs k = Some v \<and>
    filter (\<lambda>kv. fst kv = k) attrs = [(k, v)] \<and>
    length attrs \<le> length (str_split (CHR '' '') content) \<and>
    (list_ex (\<lambda>u. \<exists>v'. parse_pair u = Inr (k, v')) ts1 \<longrightarrow>
       length attrs < length (str_split (CHR '' '') content)) \<and>
    last (children (new_item build commit now attrs)) = enclosure build attrs \<and>
    map_of (attrib (enclosure build attrs)) k = Some v"
proof -
  from assms(1,2) have p: "parse_loop (ts1 @ t # ts2) [] = Inr attrs"
    by (simp add: parse_attrs_def)
  from assms(4) have "\<forall>u\<in>set ts2. \<forall>v'. parse_pair u \<noteq> Inr (k, v')"
    by (simp add: list_all_iff)
  with p assms(3) have 1: "map_of attrs k = Some v" by (rule parse_loop_last_wins)
  from assms(1) have d: "distinct (map fst attrs)" by (rule parse_attrs_distinct)
  from d 1 have 2: "filter (\<lambda>kv. fst kv = k) attrs = [(k, v)]" by (rule only_entry)
  from p have "length attrs \<le> length ([] :: (string \<times> string) list) + length (ts1 @ t # ts2)"
    by (rule parse_loop_length_le)
  with assms(2) have 3: "length attrs \<le> length (str_split (CHR '' '') content)" by simp
  have 4: "length attrs < length (str_split (CHR '' '') content)"
    if "list_ex (\<lambda>u. \<exists>v'. parse_pair u = Inr (k, v')) ts1"
  proof -
    from that obtain u v' where "u \<in> set ts1" and u: "parse_pair u = Inr (k, v')"
      by (auto simp: list_ex_iff)
    then obtain us1 us2 where "ts1 = us1 @ u # us2" by (auto simp: in_set_conv_decomp)
    with p have "parse_loop (us1 @ u # us2 @ t # ts2) [] = Inr attrs" by simp
    then have "length attrs < length (us1 @ u # us2 @ t # ts2)"
      using u assms(3) by (rule parse_loop_dup_shorter)
    with assms(2) \<open>ts1 = us1 @ u # us2\<close> show ?thesis by simp
  qed
  have 5: "last (children (new_item build commit now attrs)) = enclosure build attrs"
    by (simp add: new_item_eq)
  from d 1 have 6: "map_of (attrib (enclosure build attrs)) k = Some v"
    by (simp add: enclosure_map_of map_add_Some_iff)
  from 1 2 3 4 5 6 show ?thesis by blast
qed

text \<open>
  The blob \<^verbatim>\<open>length=1 a=x length=2\<close>: three tokens, two entries, \<^verbatim>\<open>length\<close> is \<^verbatim>\<open>2\<close>.
\<close>

theorem duplicate_key_last_wins_witness:
  "parse_attrs ''length=1 a=x length=2'' = Inr [(''length'', ''2''), (''a'', ''x'')] \<and>
   str_split (CHR '' '') ''length=1 a=x length=2'' = [''length=1'', ''a=x''] @ ''length=2'' # [] \<and>
   parse_pair ''length=2'' = Inr (''length'', ''2'') \<and>
   list_ex (\<lambda>u. \<exists>v'. parse_pair u = Inr (''length'', v')) [''length=1'', ''a=x''] \<and>
   map_of [(''length'', ''2''), (''a'', ''x'')] ''length'' = Some ''2'' \<and>
   length [(''length'', ''2''), (''a'', ''x'')] < length (str_split (CHR '' '') ''length=1 a=x length=2'') \<and>
   map_of (attrib (enclosure ''1234'' [(''length'', ''2''), (''a'', ''x'')])) ''length'' = Some ''2''"
proof -
  let ?c = "''length=1 a=x length=2''"
  let ?attrs = "[(''length'', ''2''), (''a'', ''x'')]"
  have pp: "parse_pair ''length=1'' = Inr (''length'', ''1'')"
    "parse_pair ''a=x'' = Inr (''a'', ''x'')"
    "parse_pair ''length=2'' = Inr (''length'', ''2'')"
    by (simp_all add: parse_pair_def str_split1_def strip_def isspace_def dquote_def)
  have 1: "parse_attrs ?c = Inr ?attrs" by (simp add: parse_attrs_def pp)
  have 2: "str_split (CHR '' '') ?c = [''length=1'', ''a=x''] @ ''length=2'' # []" by simp
  have 4: "list_all (\<lambda>u. \<forall>v'. parse_pair u \<noteq> Inr (''length'', v')) []" by simp
  have 5: "list_ex (\<lambda>u. \<exists>v'. parse_pair u = Inr (''length'', v')) [''length=1'', ''a=x'']"
    by (simp add: pp)
  from duplicate_key_last_wins [OF 1 2 pp(3) 4, of "''1234''"] 5
  have "map_of ?attrs ''length'' = Some ''2'' \<and>
      length ?attrs < length (str_split (CHR '' '') ?c) \<and>
      map_of (attrib (enclosure ''1234'' ?attrs)) ''length'' = Some ''2''"
    by blast
  with 1 2 pp(3) 5 show ?thesis by blast
qed

end
